theory Spec2Isabelle
  imports Complex_Main "HOL-Library.AList" "HOL-Library.Char_ord" "HOL-Library.List_Lexorder"
begin

section \<open>The coverage gate of script/check-coverage.py\<close>

text \<open>
  The script runs \<^verbatim>\<open>forge coverage --report summary\<close>, parses the table it prints,
  checks five production contracts against a policy of 100 percent on four metrics and
  exits with 0 or 1. Everything happens in \<^verbatim>\<open>main()\<close>; the definitions below follow
  its three parts in the order of the source: the parsing loop, the loop over
  \<^verbatim>\<open>PRODUCTION_CONTRACTS\<close>, and the loop that lists all source contracts.

  A Python string is modelled as a \<^typ>\<open>string\<close>: a list of code points below 256.
  In that range the pattern class \<^verbatim>\<open>\d\<close> matches the ten ASCII digits only, and
  \<^verbatim>\<open>str.strip\<close> removes the twelve white-space code points listed in \<open>isspace\<close>.
\<close>

subsection \<open>Strings\<close>

definition isspace :: "char \<Rightarrow> bool" where
  "isspace c = ((of_char c :: nat) \<in> {9, 10, 11, 12, 13, 28, 29, 30, 31, 32, 133, 160})"

definition isdigit :: "char \<Rightarrow> bool" where
  "isdigit c = (48 \<le> (of_char c :: nat) \<and> (of_char c :: nat) \<le> 57)"

text \<open>\<^verbatim>\<open>s.strip()\<close>: white space removed at both ends.\<close>

definition strip :: "string \<Rightarrow> string" where
  "strip s = rev (dropWhile isspace (rev (dropWhile isspace s)))"

text \<open>\<^verbatim>\<open>s.startswith(p)\<close>.\<close>

definition startswith :: "string \<Rightarrow> string \<Rightarrow> bool" where
  "startswith s p = (take (length p) s = p)"

text \<open>\<^verbatim>\<open>p in s\<close> for strings: \<open>p\<close> occurs in \<open>s\<close> as a contiguous piece.\<close>

fun contains :: "string \<Rightarrow> string \<Rightarrow> bool" where
  "contains [] p = (p = [])"
| "contains (x # xs) p = (startswith (x # xs) p \<or> contains xs p)"

text \<open>
  \<^verbatim>\<open>s.split(sep)\<close> for a separator of one character. The result is never empty:
  a string with n separators gives n + 1 pieces, empty pieces included.
\<close>

fun split_on :: "char \<Rightarrow> string \<Rightarrow> string list" where
  "split_on sep [] = [[]]"
| "split_on sep (x # xs) =
     (if x = sep then [] # split_on sep xs
      else (case split_on sep xs of
              p # ps \<Rightarrow> (x # p) # ps
            | [] \<Rightarrow> [[x]]))"

subsection \<open>Errors\<close>

text \<open>
  The exceptions the parsing statements can raise: \<^verbatim>\<open>parts[i]\<close> raises IndexError
  out of range, \<^verbatim>\<open>float(s)\<close> raises ValueError on a string that is no number,
  \<^verbatim>\<open>d[k]\<close> raises KeyError. None of them is caught in \<^verbatim>\<open>main()\<close>.
\<close>

datatype error = IndexError | ValueError | KeyError

definition and_then :: "error + 'a \<Rightarrow> ('a \<Rightarrow> error + 'b) \<Rightarrow> error + 'b" where
  "and_then r f = (case r of Inl e \<Rightarrow> Inl e | Inr x \<Rightarrow> f x)"

text \<open>\<^verbatim>\<open>xs[i]\<close> for an index that is not negative.\<close>

definition index :: "'a list \<Rightarrow> nat \<Rightarrow> error + 'a" where
  "index xs i = (if i < length xs then Inr (xs ! i) else Inl IndexError)"

subsection \<open>Floating-point values\<close>

text \<open>
  A metric is a Python float. The values that can arise here are the binary64 numbers
  that are not negative, and positive infinity (a literal of more than 308 digits
  overflows to \<^verbatim>\<open>inf\<close> without an exception). A finite value is kept as the rational
  number it denotes, so that \<^verbatim>\<open>==\<close> is equality.
\<close>

datatype pyfloat = Finite rat | Infinity

text \<open>Number of binary digits of a natural number (\<^verbatim>\<open>int.bit_length\<close>).\<close>

fun bit_length :: "nat \<Rightarrow> nat" where
  "bit_length n = (if n = 0 then 0 else Suc (bit_length (n div 2)))"

declare bit_length.simps [simp del]

text \<open>The integer nearest to \<open>n / d\<close>, a tie going to the even neighbour.\<close>

definition round_half_even :: "nat \<Rightarrow> nat \<Rightarrow> nat" where
  "round_half_even n d =
     (let q = n div d; r = n mod d
      in if 2 * r < d then q
         else if d < 2 * r then q + 1
         else if even q then q else q + 1)"

text \<open>The exponent \<open>k\<close> with \<open>2 ^ k \<le> n / d < 2 ^ (k + 1)\<close>, for positive \<open>n\<close> and \<open>d\<close>.\<close>

definition floor_log2 :: "nat \<Rightarrow> nat \<Rightarrow> int" where
  "floor_log2 n d =
     (let t = int (bit_length n) - int (bit_length d)
      in if (if 0 \<le> t then d * 2 ^ nat t \<le> n else d \<le> n * 2 ^ nat (- t)) then t else t - 1)"

text \<open>
  The binary64 number nearest to \<open>n / d\<close> (round to nearest, ties to even), which is
  what \<^verbatim>\<open>float\<close> returns for a decimal literal: 53 bits of significand, the least
  exponent of a significand bit \<open>-1074\<close>, overflow from \<open>2 ^ 1024\<close> on.
\<close>

definition binary64 :: "nat \<Rightarrow> nat \<Rightarrow> pyfloat" where
  "binary64 n d =
     (if n = 0 then Finite 0
      else
        let e = max (floor_log2 n d - 52) (- 1074)
        in if 0 \<le> e then
             (let m = round_half_even n (d * 2 ^ nat e)
              in if 2 ^ 1024 \<le> m * 2 ^ nat e then Infinity
                 else Finite (of_nat (m * 2 ^ nat e)))
           else
             (let m = round_half_even (n * 2 ^ nat (- e)) d
              in Finite (of_nat m / of_nat (2 ^ nat (- e)))))"

definition digit_value :: "char \<Rightarrow> nat" where
  "digit_value c = of_char c - 48"

definition digits_value :: "string \<Rightarrow> nat" where
  "digits_value s = foldl (\<lambda>acc c. 10 * acc + digit_value c) 0 s"

text \<open>
  The value of the literal \<open>a.b\<close> as a float, for two strings of digits.
\<close>

definition decimal_value :: "string \<Rightarrow> string \<Rightarrow> pyfloat" where
  "decimal_value a b = binary64 (digits_value (a @ b)) (10 ^ length b)"

text \<open>
  \<^verbatim>\<open>float(s)\<close> on the literals \<open>digits.digits\<close>, the only strings the script passes
  to it. Python accepts more (signs, exponents, \<^verbatim>\<open>inf\<close>, \<^verbatim>\<open>nan\<close>, underscores,
  surrounding white space); every other string is taken as a ValueError here, which
  errs on the side of raising.
\<close>

definition py_float :: "string \<Rightarrow> error + pyfloat" where
  "py_float s =
     (let a = takeWhile isdigit s; rest = dropWhile isdigit s
      in case rest of
           [] \<Rightarrow> Inl ValueError
         | c # b \<Rightarrow>
             if c = CHR ''.'' \<and> a \<noteq> [] \<and> b \<noteq> [] \<and> list_all isdigit b
             then Inr (decimal_value a b)
             else Inl ValueError)"

subsection \<open>The pattern\<close>

text \<open>
  \<^verbatim>\<open>re.search(r'(\d+\.\d+)%', s)\<close>. \<open>match_here\<close> is an attempt at the first
  position of \<open>s\<close>: both \<^verbatim>\<open>\d+\<close> are greedy and take a whole run of digits;
  giving digits back cannot help, because the next pattern item (\<^verbatim>\<open>\.\<close>, then
  \<^verbatim>\<open>%\<close>) is no digit. The result is group 1. \<open>re_search\<close> tries the positions
  from left to right and returns the first success.
\<close>

definition match_here :: "string \<Rightarrow> string option" where
  "match_here s =
     (let a = takeWhile isdigit s; s1 = dropWhile isdigit s
      in if a = [] then None
         else case s1 of
                [] \<Rightarrow> None
              | c # s2 \<Rightarrow>
                  if c \<noteq> CHR ''.'' then None
                  else
                    let b = takeWhile isdigit s2; s3 = dropWhile isdigit s2
                    in if b = [] then None
                       else (case s3 of
                               [] \<Rightarrow> None
                             | c' # _ \<Rightarrow>
                                 if c' = CHR ''%'' then Some (a @ (CHR ''.'' # b)) else None))"

fun re_search :: "string \<Rightarrow> string option" where
  "re_search [] = match_here []"
| "re_search (x # xs) =
     (case match_here (x # xs) of
        Some g \<Rightarrow> Some g
      | None \<Rightarrow> re_search xs)"

subsection \<open>Parsing the coverage table\<close>

text \<open>
  The value of \<^verbatim>\<open>coverage_data[contract]\<close> is a dict with the four keys
  \<^verbatim>\<open>'lines'\<close>, \<^verbatim>\<open>'statements'\<close>, \<^verbatim>\<open>'branches'\<close>, \<^verbatim>\<open>'functions'\<close>, always
  written together: a record. \<^verbatim>\<open>coverage_data\<close> itself is a dict in insertion
  order: an association list, where storing under a key that is present replaces the
  value in place and a new key goes to the end (\<^const>\<open>AList.update\<close>).
\<close>

record coverage =
  lines :: pyfloat
  statements :: pyfloat
  branches :: pyfloat
  "functions" :: pyfloat

type_synonym report = "(string \<times> coverage) list"

text \<open>\<^verbatim>\<open>float(m.group(1)) if m else 0\<close> for \<^verbatim>\<open>m = re.search(..., cell)\<close>.\<close>

definition metric_of_cell :: "string \<Rightarrow> error + pyfloat" where
  "metric_of_cell cell =
     (case re_search cell of
        None \<Rightarrow> Inr (Finite 0)
      | Some g \<Rightarrow> py_float g)"

text \<open>The body of the loop \<^verbatim>\<open>for line in lines\<close> (lines 44 to 60).\<close>

definition parse_line :: "report \<Rightarrow> string \<Rightarrow> error + report" where
  "parse_line coverage_data line =
     (if startswith line ''|'' \<and> contains line '' | '' then
        let parts = split_on CHR ''|'' line
        in if 6 \<le> length parts then
             and_then (index parts 1) (\<lambda>p1.
               let contract = strip p1
               in if contract \<noteq> [] \<and> \<not> startswith contract ''-'' then
                    and_then (index parts 2) (\<lambda>p2.
                    and_then (index parts 3) (\<lambda>p3.
                    and_then (index parts 4) (\<lambda>p4.
                    and_then (index parts 5) (\<lambda>p5.
                    and_then (metric_of_cell p2) (\<lambda>l.
                    and_then (metric_of_cell p3) (\<lambda>s.
                    and_then (metric_of_cell p4) (\<lambda>b.
                    and_then (metric_of_cell p5) (\<lambda>f.
                      Inr (AList.update contract
                             \<lparr>lines = l, statements = s, branches = b, functions = f\<rparr>
                             coverage_data)))))))))
                  else Inr coverage_data)
           else Inr coverage_data
      else Inr coverage_data)"

fun parse_lines :: "report \<Rightarrow> string list \<Rightarrow> error + report" where
  "parse_lines coverage_data [] = Inr coverage_data"
| "parse_lines coverage_data (line # rest) =
     and_then (parse_line coverage_data line) (\<lambda>coverage_data'. parse_lines coverage_data' rest)"

text \<open>Lines 40 to 60: from the output of the tool to \<^verbatim>\<open>coverage_data\<close>.\<close>

definition parse_coverage :: "string \<Rightarrow> error + report" where
  "parse_coverage coverage_output = parse_lines [] (split_on CHR 0x0A coverage_output)"

subsection \<open>Checking the production contracts\<close>

definition PRODUCTION_CONTRACTS :: "string list" where
  "PRODUCTION_CONTRACTS =
     [''src/CollectibleCast.sol'', ''src/Metadata.sol'', ''src/Minter.sol'',
      ''src/TransferValidator.sol'', ''src/Auction.sol'']"

datatype metric = Lines | Statements | Branches | Functions

text \<open>
  What the script prints, one constructor for each \<^verbatim>\<open>print\<close> of the source, in the
  order of the source. The colours and the two decimals of \<^verbatim>\<open>{value:.2f}\<close> are
  left out: an event carries the value itself.
\<close>

datatype event =
    Checking
  | FailedToRun
  | Stderr string
  | ReportHeading
  | ContractHeading string
  | MetricOk metric pyfloat
  | MetricBelow metric pyfloat
  | AllContractsHeading
  | NotTracked string
  | Status bool string
  | Rule
  | CheckFailed
  | MustHave100
  | AllHave100
  | Traceback error

text \<open>The variables that the two loops after the parsing read and write.\<close>

record state =
  all_pass :: bool
  contracts_checked :: "string list"
  out :: "event list"

definition print :: "event \<Rightarrow> state \<Rightarrow> state" where
  "print e st = st\<lparr>out := out st @ [e]\<rparr>"

text \<open>\<^verbatim>\<open>data.items()\<close>: the four entries in the order in which line 55 writes them.\<close>

definition items :: "coverage \<Rightarrow> (metric \<times> pyfloat) list" where
  "items data =
     [(Lines, lines data), (Statements, statements data),
      (Branches, branches data), (Functions, functions data)]"

text \<open>Lines 75 to 80: the loop over the metrics of one contract.\<close>

fun check_metrics :: "(metric \<times> pyfloat) list \<Rightarrow> state \<Rightarrow> state" where
  "check_metrics [] st = st"
| "check_metrics ((metric, val) # rest) st =
     check_metrics rest
       (if val = Finite 100 then print (MetricOk metric val) st
        else (print (MetricBelow metric val) st)\<lparr>all_pass := False\<rparr>)"

text \<open>
  Lines 69 to 80: the loop over the tracked contracts. The test
  \<^verbatim>\<open>contract in coverage_data\<close> and the read \<^verbatim>\<open>coverage_data[contract]\<close> are the
  one lookup \<^const>\<open>map_of\<close>.
\<close>

fun check_contracts :: "report \<Rightarrow> string list \<Rightarrow> state \<Rightarrow> state" where
  "check_contracts coverage_data [] st = st"
| "check_contracts coverage_data (contract # rest) st =
     check_contracts coverage_data rest
       (case map_of coverage_data contract of
          None \<Rightarrow> st
        | Some data \<Rightarrow>
            check_metrics (items data)
              (print (ContractHeading contract)
                 (st\<lparr>contracts_checked := contracts_checked st @ [contract]\<rparr>)))"

text \<open>
  Lines 86 to 94: the loop over the sorted keys. \<open>tracked\<close> is
  \<^verbatim>\<open>PRODUCTION_CONTRACTS\<close>. A key of the dict is always found by the read of
  line 91; on a name that is no key the read raises KeyError, which ends the loop.
\<close>

fun show_contracts :: "report \<Rightarrow> string list \<Rightarrow> string list \<Rightarrow> state \<Rightarrow> error + state" where
  "show_contracts coverage_data tracked [] st = Inr st"
| "show_contracts coverage_data tracked (contract # rest) st =
     and_then
       (if startswith contract ''src/'' \<and> contract \<noteq> ''src/Counter.sol'' then
          if contract \<notin> set tracked then Inr (print (NotTracked contract) st)
          else if contract \<in> set (contracts_checked st) then
            (case map_of coverage_data contract of
               None \<Rightarrow> Inl KeyError
             | Some data \<Rightarrow>
                 let all_100 = list_all (\<lambda>v. v = Finite 100) (map snd (items data))
                 in Inr (print (Status all_100 contract) st))
          else Inr st
        else Inr st)
       (show_contracts coverage_data tracked rest)"

text \<open>
  Lines 62 to 96, for any list of tracked contracts: the report of the checked
  contracts, then the list of all source contracts, sorted as Python sorts strings
  (by code point, a proper prefix first).
\<close>

definition evaluate :: "report \<Rightarrow> string list \<Rightarrow> error + state" where
  "evaluate coverage_data tracked =
     (let st0 = \<lparr>all_pass = True, contracts_checked = [], out = [ReportHeading, Rule]\<rparr>;
          st1 = check_contracts coverage_data tracked st0;
          st2 = print AllContractsHeading (print Rule st1)
      in and_then (show_contracts coverage_data tracked (sort (map fst coverage_data)) st2)
           (\<lambda>st3. Inr (print Rule st3)))"

subsection \<open>The whole run\<close>

text \<open>
  What \<^verbatim>\<open>subprocess.run(..., capture_output=True, text=True, check=True)\<close> hands
  over when the tool was started and has ended: its exit status and the two captured
  texts. With \<^verbatim>\<open>check=True\<close> a status other than 0 raises CalledProcessError.
\<close>

record completed_process =
  returncode :: int
  stdout :: string
  stderr :: string

text \<open>
  \<^verbatim>\<open>main()\<close>: the events printed and the exit status of the process. An exception
  that nothing catches ends the interpreter with a traceback and status 1.
\<close>

definition uncaught :: "event list \<Rightarrow> error \<Rightarrow> event list \<times> int" where
  "uncaught printed e = (printed @ [Traceback e], 1)"

definition main :: "completed_process \<Rightarrow> event list \<times> int" where
  "main result =
     (if returncode result \<noteq> 0 then ([Checking, FailedToRun, Stderr (stderr result)], 1)
      else
        case parse_coverage (stdout result) of
          Inl e \<Rightarrow> uncaught [Checking] e
        | Inr coverage_data \<Rightarrow>
            (case evaluate coverage_data PRODUCTION_CONTRACTS of
               Inl e \<Rightarrow> uncaught [Checking] e
             | Inr st \<Rightarrow>
                 if \<not> all_pass st then (Checking # out st @ [CheckFailed, MustHave100], 1)
                 else (Checking # out st @ [AllHave100], 0)))"

section \<open>Notions used to state the properties\<close>

subsection \<open>What one line of the table contributes\<close>

text \<open>
  Names for the parts of the loop body: the value a cell gives (the float of
  \<open>metric_of_cell\<close>, which never raises), the test that makes a line a data row, the
  key and the record the row stores, and the effect of the row on the dict.
\<close>

definition cell_value :: "string \<Rightarrow> pyfloat" where
  "cell_value cell = (case metric_of_cell cell of Inr v \<Rightarrow> v | Inl e \<Rightarrow> Finite 0)"

definition data_row :: "string \<Rightarrow> bool" where
  "data_row line =
     (startswith line ''|'' \<and> contains line '' | '' \<and>
      6 \<le> length (split_on CHR ''|'' line) \<and>
      strip (split_on CHR ''|'' line ! 1) \<noteq> [] \<and>
      \<not> startswith (strip (split_on CHR ''|'' line ! 1)) ''-'')"

definition row_key :: "string \<Rightarrow> string" where
  "row_key line = strip (split_on CHR ''|'' line ! 1)"

definition row_record :: "string \<Rightarrow> coverage" where
  "row_record line =
     (let parts = split_on CHR ''|'' line
      in \<lparr>lines = cell_value (parts ! 2), statements = cell_value (parts ! 3),
          branches = cell_value (parts ! 4), functions = cell_value (parts ! 5)\<rparr>)"

definition add_row :: "report \<Rightarrow> string \<Rightarrow> report" where
  "add_row coverage_data line =
     (if data_row line then AList.update (row_key line) (row_record line) coverage_data
      else coverage_data)"

subsection \<open>An occurrence of the pattern\<close>

text \<open>
  The pattern \<^verbatim>\<open>(\d+\.\d+)%\<close> occurs in \<open>s\<close> at position \<open>i\<close> with the digits
  \<open>a\<close> before the point and \<open>b\<close> after it. This is the meaning of the regular
  expression, stated without reference to the way \<open>re_search\<close> looks for it.
\<close>

definition pattern_at :: "string \<Rightarrow> nat \<Rightarrow> string \<Rightarrow> string \<Rightarrow> bool" where
  "pattern_at s i a b =
     (\<exists>rest. i \<le> length s \<and> drop i s = a @ ''.'' @ b @ ''%'' @ rest \<and>
             a \<noteq> [] \<and> b \<noteq> [] \<and> list_all isdigit a \<and> list_all isdigit b)"

text \<open>
  The value that the first occurrence of the pattern in a cell denotes, and 0 for a cell
  without an occurrence; and the four cells after the path of a row read in this way.
\<close>

definition first_percentage :: "string \<Rightarrow> pyfloat \<Rightarrow> bool" where
  "first_percentage cell v =
     ((\<forall>i a b. \<not> pattern_at cell i a b) \<and> v = Finite 0 \<or>
      (\<exists>i a b. pattern_at cell i a b \<and> (\<forall>j<i. \<forall>a' b'. \<not> pattern_at cell j a' b') \<and>
                v = decimal_value a b))"

definition row_metrics :: "string \<Rightarrow> coverage \<Rightarrow> bool" where
  "row_metrics line data =
     (first_percentage (split_on CHR ''|'' line ! 2) (lines data) \<and>
      first_percentage (split_on CHR ''|'' line ! 3) (statements data) \<and>
      first_percentage (split_on CHR ''|'' line ! 4) (branches data) \<and>
      first_percentage (split_on CHR ''|'' line ! 5) (functions data))"

subsection \<open>Ranges of values\<close>

text \<open>
  \<open>in_percent_range\<close> is the interval from 0 to 100 of the data model;
  \<open>not_negative\<close> is its lower bound alone.
\<close>

definition in_percent_range :: "pyfloat \<Rightarrow> bool" where
  "in_percent_range v = (case v of Finite q \<Rightarrow> 0 \<le> q \<and> q \<le> 100 | Infinity \<Rightarrow> False)"

definition not_negative :: "pyfloat \<Rightarrow> bool" where
  "not_negative v = (case v of Finite q \<Rightarrow> 0 \<le> q | Infinity \<Rightarrow> True)"

definition record_not_negative :: "coverage \<Rightarrow> bool" where
  "record_not_negative r =
     (not_negative (lines r) \<and> not_negative (statements r) \<and>
      not_negative (branches r) \<and> not_negative (functions r))"

subsection \<open>What the evaluation prints and decides\<close>

text \<open>
  The outcome of the two loops in closed form: the event of one metric, the events of
  one tracked contract, the events of one key in the list of all source contracts, the
  tracked contracts found in the report, and the verdict.
\<close>

definition metric_event :: "metric \<times> pyfloat \<Rightarrow> event" where
  "metric_event mv =
     (case mv of (m, v) \<Rightarrow> if v = Finite 100 then MetricOk m v else MetricBelow m v)"

definition all_100 :: "coverage \<Rightarrow> bool" where
  "all_100 data =
     (lines data = Finite 100 \<and> statements data = Finite 100 \<and>
      branches data = Finite 100 \<and> functions data = Finite 100)"

definition contract_events :: "report \<Rightarrow> string \<Rightarrow> event list" where
  "contract_events coverage_data contract =
     (case map_of coverage_data contract of
        None \<Rightarrow> []
      | Some data \<Rightarrow> ContractHeading contract # map metric_event (items data))"

definition listing_events :: "report \<Rightarrow> string list \<Rightarrow> string list \<Rightarrow> string \<Rightarrow> event list" where
  "listing_events coverage_data tracked checked contract =
     (if startswith contract ''src/'' \<and> contract \<noteq> ''src/Counter.sol'' then
        if contract \<notin> set tracked then [NotTracked contract]
        else if contract \<in> set checked then
          (case map_of coverage_data contract of
             None \<Rightarrow> []
           | Some data \<Rightarrow> [Status (all_100 data) contract])
        else []
      else [])"

definition found :: "report \<Rightarrow> string list \<Rightarrow> string list" where
  "found coverage_data tracked = filter (\<lambda>c. map_of coverage_data c \<noteq> None) tracked"

definition verdict :: "report \<Rightarrow> string list \<Rightarrow> bool" where
  "verdict coverage_data tracked =
     (\<forall>c\<in>set tracked. \<forall>data. map_of coverage_data c = Some data \<longrightarrow> all_100 data)"

subsection \<open>A data row with a delimiter inside the line\<close>

text \<open>
  The conditions on a data row with the second one read as "a delimiter occurs after
  the first character" instead of the test of line 44.
\<close>

definition interior_delimiter :: "string \<Rightarrow> bool" where
  "interior_delimiter line = (CHR ''|'' \<in> set (tl line))"

definition claimed_data_row :: "string \<Rightarrow> bool" where
  "claimed_data_row line =
     (startswith line ''|'' \<and> interior_delimiter line \<and>
      6 \<le> length (split_on CHR ''|'' line) \<and>
      strip (split_on CHR ''|'' line ! 1) \<noteq> [] \<and>
      \<not> startswith (strip (split_on CHR ''|'' line ! 1)) ''-'')"

section \<open>Properties\<close>

subsection \<open>Auxiliary facts\<close>

lemma and_then_Inr [simp]: "and_then (Inr x) f = f x"
  by (simp add: and_then_def)

lemma and_then_Inl [simp]: "and_then (Inl e) f = Inl e"
  by (simp add: and_then_def)

lemma isdigit_dot [simp]: "\<not> isdigit CHR ''.''"
  by (simp add: isdigit_def)

lemma isdigit_percent [simp]: "\<not> isdigit CHR ''%''"
  by (simp add: isdigit_def)

lemma py_float_literal:
  assumes "a \<noteq> []" "b \<noteq> []" "list_all isdigit a" "list_all isdigit b"
  shows "py_float (a @ CHR ''.'' # b) = Inr (decimal_value a b)"
proof -
  from assms(3) have all: "\<forall>x\<in>set a. isdigit x"
    by (simp add: list_all_iff)
  have t: "takeWhile isdigit (a @ CHR ''.'' # b) = a"
    using all by (simp add: takeWhile_append2)
  have d: "dropWhile isdigit (a @ CHR ''.'' # b) = CHR ''.'' # b"
    using all by (simp add: dropWhile_append2)
  show ?thesis
    using assms by (simp add: py_float_def t d)
qed

lemma match_here_shape:
  assumes "match_here s = Some g"
  shows "\<exists>a b rest. s = a @ CHR ''.'' # b @ CHR ''%'' # rest \<and> g = a @ CHR ''.'' # b \<and>
           a \<noteq> [] \<and> b \<noteq> [] \<and> list_all isdigit a \<and> list_all isdigit b"
proof -
  define a where "a = takeWhile isdigit s"
  define s1 where "s1 = dropWhile isdigit s"
  have s: "s = a @ s1" by (simp add: a_def s1_def)
  from assms have a: "a \<noteq> []"
    by (auto simp: match_here_def Let_def a_def split: if_splits)
  from assms a obtain s2 where s1: "s1 = CHR ''.'' # s2"
    by (auto simp: match_here_def Let_def a_def s1_def split: if_splits list.splits)
  define b where "b = takeWhile isdigit s2"
  define s3 where "s3 = dropWhile isdigit s2"
  have s2: "s2 = b @ s3" by (simp add: b_def s3_def)
  from assms a s1 have b: "b \<noteq> []"
    by (auto simp: match_here_def Let_def a_def[symmetric] s1_def[symmetric] b_def split: if_splits list.splits)
  from assms a s1 b obtain rest where s3: "s3 = CHR ''%'' # rest" and g: "g = a @ CHR ''.'' # b"
    by (auto simp: match_here_def Let_def a_def[symmetric] s1_def[symmetric] b_def[symmetric] s3_def[symmetric]
        split: if_splits list.splits)
  have da: "list_all isdigit a" unfolding a_def list_all_iff
    by (meson set_takeWhileD)
  have db: "list_all isdigit b" unfolding b_def list_all_iff
    by (meson set_takeWhileD)
  show ?thesis
    using s s1 s2 s3 g a b da db by auto
qed

lemma re_search_shape:
  "re_search s = Some g \<Longrightarrow>
     \<exists>a b. g = a @ CHR ''.'' # b \<and> a \<noteq> [] \<and> b \<noteq> [] \<and> list_all isdigit a \<and> list_all isdigit b"
proof (induction s)
  case Nil
  then show ?case using match_here_shape by fastforce
next
  case (Cons x xs)
  show ?case
  proof (cases "match_here (x # xs)")
    case None
    with Cons show ?thesis by simp
  next
    case (Some g')
    with Cons.prems have "g' = g" by simp
    with Some match_here_shape[of "x # xs" g] show ?thesis by blast
  qed
qed

lemma metric_of_cell_value: "metric_of_cell cell = Inr (cell_value cell)"
proof (cases "re_search cell")
  case None
  then show ?thesis by (simp add: cell_value_def metric_of_cell_def)
next
  case (Some g)
  from re_search_shape[OF Some] obtain a b where
    "g = a @ CHR ''.'' # b" "a \<noteq> []" "b \<noteq> []" "list_all isdigit a" "list_all isdigit b"
    by blast
  then have "py_float g = Inr (decimal_value a b)"
    using py_float_literal by simp
  then show ?thesis
    using Some by (simp add: cell_value_def metric_of_cell_def)
qed

lemma parse_line_row:
  "parse_line coverage_data line =
     Inr (if data_row line then AList.update (row_key line) (row_record line) coverage_data
          else coverage_data)"
  by (simp add: parse_line_def data_row_def row_key_def row_record_def Let_def index_def
      metric_of_cell_value)

lemma split_on_not_Nil [simp]: "split_on sep s \<noteq> []"
  by (induction s) (auto split: list.splits)

lemma split_on_piece: "sep \<notin> set a \<Longrightarrow> split_on sep (a @ sep # rest) = a # split_on sep rest"
  by (induction a) auto

lemma split_on_whole: "sep \<notin> set a \<Longrightarrow> split_on sep a = [a]"
  by (induction a) auto

lemma parse_lines_foldl: "parse_lines coverage_data ls = Inr (foldl add_row coverage_data ls)"
  by (induction ls arbitrary: coverage_data) (simp_all add: parse_line_row add_row_def)

lemma parse_coverage_foldl:
  "parse_coverage text = Inr (foldl add_row [] (split_on CHR 0x0A text))"
  by (simp add: parse_coverage_def parse_lines_foldl)

lemma map_of_add_row_other:
  "\<not> (data_row l \<and> row_key l = k) \<Longrightarrow> map_of (add_row cd l) k = map_of cd k"
  by (auto simp: add_row_def update_conv')

lemma map_of_foldl_add_row_other:
  "\<forall>l\<in>set ls. data_row l \<longrightarrow> row_key l \<noteq> k \<Longrightarrow> map_of (foldl add_row cd ls) k = map_of cd k"
proof (induction ls arbitrary: cd)
  case Nil
  then show ?case by simp
next
  case (Cons l ls)
  then have "map_of (foldl add_row (add_row cd l) ls) k = map_of (add_row cd l) k"
    by simp
  also have "\<dots> = map_of cd k"
    using Cons.prems by (intro map_of_add_row_other) auto
  finally show ?case by simp
qed

lemma binary64_not_negative: "not_negative (binary64 n d)"
  by (simp add: binary64_def not_negative_def Let_def)

lemma cell_value_not_negative: "not_negative (cell_value cell)"
proof (cases "re_search cell")
  case None
  then show ?thesis by (simp add: cell_value_def metric_of_cell_def not_negative_def)
next
  case (Some g)
  from re_search_shape[OF Some] obtain a b where
    "g = a @ CHR ''.'' # b" "a \<noteq> []" "b \<noteq> []" "list_all isdigit a" "list_all isdigit b"
    by blast
  then have "py_float g = Inr (decimal_value a b)"
    using py_float_literal by simp
  then show ?thesis
    using Some by (simp add: cell_value_def metric_of_cell_def decimal_value_def binary64_not_negative)
qed

lemma row_record_not_negative: "record_not_negative (row_record line)"
  by (simp add: record_not_negative_def row_record_def Let_def cell_value_not_negative)

lemma set_update_subset: "set (AList.update k v al) \<subseteq> insert (k, v) (set al)"
  by (induction al) auto

lemma add_row_invariant:
  "\<forall>(k, r)\<in>set cd. record_not_negative r \<Longrightarrow> \<forall>(k, r)\<in>set (add_row cd l). record_not_negative r"
  using set_update_subset[of "row_key l" "row_record l" cd] row_record_not_negative[of l]
  by (auto simp: add_row_def)

lemma foldl_add_row_invariant:
  "\<forall>(k, r)\<in>set cd. record_not_negative r \<Longrightarrow> \<forall>(k, r)\<in>set (foldl add_row cd ls). record_not_negative r"
proof (induction ls arbitrary: cd)
  case Nil
  then show ?case by simp
next
  case (Cons l ls)
  have "\<forall>(k, r)\<in>set (add_row cd l). record_not_negative r"
    using Cons.prems by (rule add_row_invariant)
  then have "\<forall>(k, r)\<in>set (foldl add_row (add_row cd l) ls). record_not_negative r"
    by (rule Cons.IH)
  then show ?case by simp
qed

lemmas eval_defs =
  metric_of_cell_def match_here_def py_float_def isdigit_def isspace_def decimal_value_def
  digits_value_def digit_value_def binary64_def floor_log2_def round_half_even_def
  bit_length.simps Let_def cell_value_def data_row_def row_key_def row_record_def
  startswith_def strip_def add_row_def index_def

lemma print_fields [simp]:
  "out (print e st) = out st @ [e]"
  "all_pass (print e st) = all_pass st"
  "contracts_checked (print e st) = contracts_checked st"
  by (simp_all add: print_def)

lemma check_metrics_fields:
  "out (check_metrics ms st) = out st @ map metric_event ms"
  "all_pass (check_metrics ms st) = (all_pass st \<and> (\<forall>(m, v)\<in>set ms. v = Finite 100))"
  "contracts_checked (check_metrics ms st) = contracts_checked st"
  by (induction ms st rule: check_metrics.induct) (auto simp: metric_event_def)

lemma items_all_100: "(\<forall>(m, v)\<in>set (items data). v = Finite 100) = all_100 data"
  by (auto simp: items_def all_100_def)

lemma list_all_items: "list_all (\<lambda>v. v = Finite 100) (map snd (items data)) = all_100 data"
  by (auto simp: items_def all_100_def)

lemma check_contracts_fields:
  "out (check_contracts cd tracked st) = out st @ concat (map (contract_events cd) tracked)"
  "all_pass (check_contracts cd tracked st) = (all_pass st \<and> verdict cd tracked)"
  "contracts_checked (check_contracts cd tracked st) = contracts_checked st @ found cd tracked"
  by (induction cd tracked st rule: check_contracts.induct)
     (auto simp: check_metrics_fields items_all_100 contract_events_def verdict_def found_def
           split: option.splits)

lemma show_contracts_eq:
  "set ks \<subseteq> fst ` set cd \<Longrightarrow>
   show_contracts cd tracked ks st =
     Inr (st\<lparr>out := out st @ concat (map (listing_events cd tracked (contracts_checked st)) ks)\<rparr>)"
proof (induction ks arbitrary: st)
  case Nil
  then show ?case by simp
next
  case (Cons k ks)
  from Cons.prems have "k \<in> fst ` set cd" by simp
  then obtain data where data: "map_of cd k = Some data"
    by (metis map_of_eq_None_iff not_Some_eq)
  from Cons.prems have ks: "set ks \<subseteq> fst ` set cd" by simp
  show ?case
    by (simp add: Cons.IH[OF ks] data listing_events_def list_all_items print_def Let_def)
qed

lemma evaluate_eq:
  "evaluate cd tracked =
     Inr \<lparr>all_pass = verdict cd tracked,
          contracts_checked = found cd tracked,
          out = ReportHeading # Rule # concat (map (contract_events cd) tracked)
                @ [Rule, AllContractsHeading]
                @ concat (map (listing_events cd tracked (found cd tracked)) (sort (map fst cd)))
                @ [Rule]\<rparr>"
proof -
  have "set (sort (map fst cd)) \<subseteq> fst ` set cd" by simp
  then show ?thesis
    by (simp add: evaluate_def Let_def show_contracts_eq check_contracts_fields print_def)
qed

lemma main_eq:
  "main result =
     (if returncode result \<noteq> 0 then ([Checking, FailedToRun, Stderr (stderr result)], 1)
      else
        let cd = foldl add_row [] (split_on CHR 0x0A (stdout result));
            printed = ReportHeading # Rule # concat (map (contract_events cd) PRODUCTION_CONTRACTS)
                @ [Rule, AllContractsHeading]
                @ concat (map (listing_events cd PRODUCTION_CONTRACTS (found cd PRODUCTION_CONTRACTS))
                            (sort (map fst cd)))
                @ [Rule]
        in if verdict cd PRODUCTION_CONTRACTS then (Checking # printed @ [AllHave100], 0)
           else (Checking # printed @ [CheckFailed, MustHave100], 1))"
  by (simp add: main_def parse_coverage_foldl evaluate_eq Let_def)

lemmas report_defs =
  evaluate_eq verdict_def found_def contract_events_def listing_events_def all_100_def
  items_def metric_event_def PRODUCTION_CONTRACTS_def startswith_def

lemma metric_event_in_contract_events:
  assumes "e \<in> set (contract_events cd c)"
  shows "e = ContractHeading c \<or>
     (\<exists>data m v. map_of cd c = Some data \<and> (m, v) \<in> set (items data) \<and> e = metric_event (m, v))"
proof (cases "map_of cd c")
  case None
  with assms show ?thesis by (simp add: contract_events_def)
next
  case (Some data)
  with assms have "e = ContractHeading c \<or> e \<in> metric_event ` set (items data)"
    by (simp add: contract_events_def)
  with Some show ?thesis by fastforce
qed

lemma no_metric_event_in_listing:
  "e \<in> set (listing_events cd tracked checked c) \<Longrightarrow> (\<exists>k. e = NotTracked k) \<or> (\<exists>b k. e = Status b k)"
  by (auto simp: listing_events_def split: option.splits if_splits)

lemma startswith_iff: "startswith s p \<longleftrightarrow> (\<exists>rest. s = p @ rest)"
  unfolding startswith_def
  by (metis append_eq_conv_conj append_take_drop_id)

lemma contains_iff: "contains s p \<longleftrightarrow> (\<exists>a b. s = a @ p @ b)"
proof (induction s)
  case Nil
  then show ?case by auto
next
  case (Cons x xs)
  show ?case
  proof
    assume "contains (x # xs) p"
    then consider "startswith (x # xs) p" | "contains xs p" by auto
    then show "\<exists>a b. x # xs = a @ p @ b"
    proof cases
      case 1
      then obtain rest where "x # xs = p @ rest" by (auto simp: startswith_iff)
      then have "x # xs = [] @ p @ rest" by simp
      then show ?thesis by blast
    next
      case 2
      with Cons.IH obtain a b where "xs = a @ p @ b" by blast
      then have "x # xs = (x # a) @ p @ b" by simp
      then show ?thesis by blast
    qed
  next
    assume "\<exists>a b. x # xs = a @ p @ b"
    then obtain a b where ab: "x # xs = a @ p @ b" by blast
    show "contains (x # xs) p"
    proof (cases a)
      case Nil
      with ab have "startswith (x # xs) p" by (auto simp: startswith_iff)
      then show ?thesis by simp
    next
      case (Cons y ys)
      with ab have "xs = ys @ p @ b" by simp
      with Cons.IH have "contains xs p" by blast
      then show ?thesis by simp
    qed
  qed
qed

lemma startswith_dash: "startswith s ''-'' \<longleftrightarrow> s \<noteq> [] \<and> hd s = CHR ''-''"
  by (cases s) (simp_all add: startswith_def)

lemma startswith_bar: "startswith s ''|'' \<longleftrightarrow> (\<exists>rest. s = CHR ''|'' # rest)"
  by (cases s) (simp_all add: startswith_def)

lemma match_here_pattern:
  assumes "s = a @ ''.'' @ b @ ''%'' @ rest" "a \<noteq> []" "b \<noteq> []"
    "list_all isdigit a" "list_all isdigit b"
  shows "match_here s = Some (a @ ''.'' @ b)"
proof -
  from assms(4,5) have da: "\<forall>x\<in>set a. isdigit x" and db: "\<forall>x\<in>set b. isdigit x"
    by (simp_all add: list_all_iff)
  have ta: "takeWhile isdigit s = a" and dra: "dropWhile isdigit s = CHR ''.'' # b @ CHR ''%'' # rest"
    using da assms(1) by (simp_all add: takeWhile_append2 dropWhile_append2)
  have tb: "takeWhile isdigit (b @ CHR ''%'' # rest) = b"
    and drb: "dropWhile isdigit (b @ CHR ''%'' # rest) = CHR ''%'' # rest"
    using db by (simp_all add: takeWhile_append2 dropWhile_append2)
  show ?thesis
    using assms(2,3) by (simp add: match_here_def ta dra tb drb)
qed

lemma match_here_iff:
  "match_here s = Some g \<longleftrightarrow> (\<exists>a b. pattern_at s 0 a b \<and> g = a @ ''.'' @ b)"
proof
  assume "match_here s = Some g"
  from match_here_shape[OF this] show "\<exists>a b. pattern_at s 0 a b \<and> g = a @ ''.'' @ b"
    unfolding pattern_at_def by fastforce
next
  assume "\<exists>a b. pattern_at s 0 a b \<and> g = a @ ''.'' @ b"
  then obtain a b rest where "s = a @ ''.'' @ b @ ''%'' @ rest" "a \<noteq> []" "b \<noteq> []"
    "list_all isdigit a" "list_all isdigit b" "g = a @ ''.'' @ b"
    unfolding pattern_at_def by auto
  then show "match_here s = Some g"
    using match_here_pattern by blast
qed

lemma pattern_at_Nil [simp]: "\<not> pattern_at [] i a b"
  by (simp add: pattern_at_def)

lemma pattern_at_Suc [simp]: "pattern_at (x # xs) (Suc i) a b = pattern_at xs i a b"
  by (simp add: pattern_at_def)

lemma pattern_at_drop:
  assumes "pattern_at s i a b"
  shows "match_here (drop i s) = Some (a @ ''.'' @ b)"
proof -
  from assms obtain rest where "drop i s = a @ ''.'' @ b @ ''%'' @ rest" "a \<noteq> []" "b \<noteq> []"
    "list_all isdigit a" "list_all isdigit b"
    unfolding pattern_at_def by blast
  then show ?thesis
    by (rule match_here_pattern)
qed

lemma re_search_None_iff: "re_search s = None \<longleftrightarrow> (\<forall>i a b. \<not> pattern_at s i a b)"
proof (induction s)
  case Nil
  then show ?case by (simp add: match_here_def)
next
  case (Cons x xs)
  have here: "match_here (x # xs) = None \<longleftrightarrow> (\<forall>a b. \<not> pattern_at (x # xs) 0 a b)"
    using match_here_iff[of "x # xs"] by (metis not_Some_eq)
  have "re_search (x # xs) = None \<longleftrightarrow> match_here (x # xs) = None \<and> re_search xs = None"
    by (simp split: option.splits)
  also have "\<dots> \<longleftrightarrow> (\<forall>a b. \<not> pattern_at (x # xs) 0 a b) \<and> (\<forall>i a b. \<not> pattern_at xs i a b)"
    using here Cons.IH by simp
  also have "\<dots> \<longleftrightarrow> (\<forall>i a b. \<not> pattern_at (x # xs) i a b)"
  proof
    assume h: "(\<forall>a b. \<not> pattern_at (x # xs) 0 a b) \<and> (\<forall>i a b. \<not> pattern_at xs i a b)"
    show "\<forall>i a b. \<not> pattern_at (x # xs) i a b"
    proof (intro allI)
      fix i a b
      show "\<not> pattern_at (x # xs) i a b"
        using h by (cases i) simp_all
    qed
  next
    assume h: "\<forall>i a b. \<not> pattern_at (x # xs) i a b"
    then have "\<forall>i a b. \<not> pattern_at (x # xs) (Suc i) a b"
      by blast
    with h show "(\<forall>a b. \<not> pattern_at (x # xs) 0 a b) \<and> (\<forall>i a b. \<not> pattern_at xs i a b)"
      by simp
  qed
  finally show ?case .
qed

lemma re_search_first:
  assumes "pattern_at s i a b" "\<forall>j<i. \<forall>a' b'. \<not> pattern_at s j a' b'"
  shows "re_search s = Some (a @ ''.'' @ b)"
  using assms
proof (induction s arbitrary: i)
  case Nil
  then show ?case by simp
next
  case (Cons x xs)
  show ?case
  proof (cases i)
    case 0
    with Cons.prems(1) have "match_here (x # xs) = Some (a @ ''.'' @ b)"
      using match_here_iff by blast
    then show ?thesis by simp
  next
    case (Suc k)
    with Cons.prems(2) have "\<forall>a' b'. \<not> pattern_at (x # xs) 0 a' b'"
      by blast
    then have none: "match_here (x # xs) = None"
      using match_here_iff[of "x # xs"] by (metis not_Some_eq)
    from Suc Cons.prems(1) have p: "pattern_at xs k a b"
      by simp
    have "\<forall>j<k. \<forall>a' b'. \<not> pattern_at xs j a' b'"
    proof (intro allI impI)
      fix j a' b'
      assume "j < k"
      then have "Suc j < i" using Suc by simp
      with Cons.prems(2) have "\<not> pattern_at (x # xs) (Suc j) a' b'"
        by blast
      then show "\<not> pattern_at xs j a' b'" by simp
    qed
    from Cons.IH[OF p this] none show ?thesis
      by simp
  qed
qed

lemma first_percentage_cell_value: "first_percentage cell (cell_value cell)"
proof (cases "re_search cell")
  case None
  then have "\<forall>i a b. \<not> pattern_at cell i a b"
    by (rule iffD1[OF re_search_None_iff])
  moreover from None have "cell_value cell = Finite 0"
    by (simp add: cell_value_def metric_of_cell_def)
  ultimately show ?thesis
    by (simp add: first_percentage_def)
next
  case (Some g)
  then have "\<not> (\<forall>i a b. \<not> pattern_at cell i a b)"
    using re_search_None_iff[of cell] by simp
  then have "\<exists>i. \<exists>a b. pattern_at cell i a b"
    by blast
  then obtain i where i: "\<exists>a b. pattern_at cell i a b"
    and least: "\<forall>j<i. \<not> (\<exists>a b. pattern_at cell j a b)"
    using exists_least_iff[of "\<lambda>i. \<exists>a b. pattern_at cell i a b"] by blast
  from i obtain a b where p: "pattern_at cell i a b"
    by blast
  from least have first: "\<forall>j<i. \<forall>a' b'. \<not> pattern_at cell j a' b'"
    by blast
  from re_search_first[OF p first] have "re_search cell = Some (a @ ''.'' @ b)" .
  moreover from p have "py_float (a @ CHR ''.'' # b) = Inr (decimal_value a b)"
    unfolding pattern_at_def by (auto intro: py_float_literal)
  ultimately have "cell_value cell = decimal_value a b"
    by (simp add: cell_value_def metric_of_cell_def)
  with p first show ?thesis
    unfolding first_percentage_def by blast
qed

lemma first_percentage_unique:
  assumes "first_percentage cell v" "first_percentage cell w"
  shows "v = w"
proof -
  have "v = cell_value cell" if "first_percentage cell v" for v
  proof -
    from that consider "\<forall>i a b. \<not> pattern_at cell i a b" "v = Finite 0"
      | i a b where "pattern_at cell i a b" "\<forall>j<i. \<forall>a' b'. \<not> pattern_at cell j a' b'"
          "v = decimal_value a b"
      unfolding first_percentage_def by blast
    then show ?thesis
    proof cases
      case 1
      then have "re_search cell = None"
        using re_search_None_iff by blast
      with 1 show ?thesis
        by (simp add: cell_value_def metric_of_cell_def)
    next
      case 2
      from re_search_first[OF 2(1,2)] have "re_search cell = Some (a @ ''.'' @ b)" .
      moreover from 2(1) have "py_float (a @ CHR ''.'' # b) = Inr (decimal_value a b)"
        unfolding pattern_at_def by (auto intro: py_float_literal)
      ultimately show ?thesis
        using 2(3) by (simp add: cell_value_def metric_of_cell_def)
    qed
  qed
  from this[OF assms(1)] this[OF assms(2)] show ?thesis
    by simp
qed

lemma row_metrics_row_record: "row_metrics line (row_record line)"
  by (simp add: row_metrics_def row_record_def Let_def first_percentage_cell_value)

lemma keys_update: "fst ` set (AList.update k v al) = insert k (fst ` set al)"
  by (induction al) auto

lemma keys_add_row:
  "fst ` set (add_row cd l) = fst ` set cd \<union> (if data_row l then {row_key l} else {})"
  by (simp add: add_row_def keys_update)

lemma keys_foldl_add_row:
  "fst ` set (foldl add_row cd ls) = fst ` set cd \<union> {row_key l | l. l \<in> set ls \<and> data_row l}"
proof (induction ls arbitrary: cd)
  case Nil
  then show ?case by simp
next
  case (Cons l ls)
  have "fst ` set (foldl add_row cd (l # ls)) =
          fst ` set (add_row cd l) \<union> {row_key l' | l'. l' \<in> set ls \<and> data_row l'}"
    by (simp add: Cons.IH)
  also have "\<dots> = fst ` set cd \<union> {row_key l' | l'. l' \<in> set (l # ls) \<and> data_row l'}"
    unfolding keys_add_row by auto
  finally show ?case .
qed

lemma entries_add_row:
  "set (add_row cd l) \<subseteq> set cd \<union> (if data_row l then {(row_key l, row_record l)} else {})"
  using set_update_subset[of "row_key l" "row_record l" cd] by (auto simp: add_row_def)

lemma entries_foldl_add_row:
  "set (foldl add_row cd ls) \<subseteq>
     set cd \<union> {(row_key l, row_record l) | l. l \<in> set ls \<and> data_row l}"
proof (induction ls arbitrary: cd)
  case Nil
  then show ?case by simp
next
  case (Cons l ls)
  have "set (foldl add_row cd (l # ls)) \<subseteq>
          set (add_row cd l) \<union> {(row_key l', row_record l') | l'. l' \<in> set ls \<and> data_row l'}"
    using Cons.IH[of "add_row cd l"] by simp
  also have "\<dots> \<subseteq> set cd \<union> {(row_key l', row_record l') | l'. l' \<in> set (l # ls) \<and> data_row l'}"
  proof (cases "data_row l")
    case True
    with entries_add_row[of cd l] have "set (add_row cd l) \<subseteq> set cd \<union> {(row_key l, row_record l)}"
      by simp
    with True show ?thesis
      by fastforce
  next
    case False
    with entries_add_row[of cd l] have "set (add_row cd l) \<subseteq> set cd"
      by simp
    then show ?thesis
      by fastforce
  qed
  finally show ?case .
qed

section \<open>The claims\<close>

subsection \<open>The verdict\<close>

text \<open>
  Claim C1: for every report and every list of tracked files, the verdict is pass
  exactly when every tracked file that is present in the report has its four metrics
  equal to 100.0. A tracked file that is absent contributes nothing, and when no
  tracked file is found the verdict is pass.
\<close>

theorem verdict_iff_tracked_present_all_100:
  "\<exists>st. evaluate coverage_data tracked = Inr st \<and>
     (all_pass st \<longleftrightarrow>
        (\<forall>contract\<in>set tracked. \<forall>data. map_of coverage_data contract = Some data \<longrightarrow>
           lines data = Finite 100 \<and> statements data = Finite 100 \<and>
           branches data = Finite 100 \<and> functions data = Finite 100)) \<and>
     (\<forall>absent. map_of coverage_data absent = None \<longrightarrow>
        (\<exists>st'. evaluate coverage_data (absent # tracked) = Inr st' \<and> all_pass st' = all_pass st)) \<and>
     ((\<forall>contract\<in>set tracked. map_of coverage_data contract = None) \<longrightarrow> all_pass st)"
  by (simp add: evaluate_eq verdict_def all_100_def)

theorem verdict_iff_tracked_present_all_100_witness:
  "(\<exists>st. evaluate
           [(''src/Minter.sol'',
             \<lparr>lines = Finite 100, statements = Finite 100, branches = Finite 100,
              functions = Finite 100\<rparr>),
            (''src/Helper.sol'',
             \<lparr>lines = Finite 50, statements = Finite 100, branches = Finite 100,
              functions = Finite 100\<rparr>)]
           PRODUCTION_CONTRACTS = Inr st \<and> all_pass st) \<and>
   (\<exists>st. evaluate
           [(''src/Auction.sol'',
             \<lparr>lines = Finite 100, statements = Finite 100, branches = Finite (185 / 2),
              functions = Finite 100\<rparr>)]
           PRODUCTION_CONTRACTS = Inr st \<and> \<not> all_pass st)"
proof -
  let ?a = "[(''src/Minter.sol'',
             \<lparr>lines = Finite 100, statements = Finite 100, branches = Finite 100,
              functions = Finite 100\<rparr>),
            (''src/Helper.sol'',
             \<lparr>lines = Finite 50, statements = Finite 100, branches = Finite 100,
              functions = Finite 100\<rparr>)]"
  let ?b = "[(''src/Auction.sol'',
             \<lparr>lines = Finite 100, statements = Finite 100, branches = Finite (185 / 2),
              functions = Finite 100\<rparr>)]"
  from verdict_iff_tracked_present_all_100[of ?a PRODUCTION_CONTRACTS]
  obtain st where "evaluate ?a PRODUCTION_CONTRACTS = Inr st" "all_pass st"
    by (auto simp: PRODUCTION_CONTRACTS_def)
  moreover
  from verdict_iff_tracked_present_all_100[of ?b PRODUCTION_CONTRACTS]
  obtain st' where "evaluate ?b PRODUCTION_CONTRACTS = Inr st'" "\<not> all_pass st'"
    by (auto simp: PRODUCTION_CONTRACTS_def)
  ultimately show ?thesis
    by blast
qed

subsection \<open>The exit status\<close>

text \<open>
  Claim C2: the process exits with 0 exactly when the verdict is pass; it exits with 1
  when the verdict is fail or when the tool ended with a status other than 0, and in
  that case it prints the captured error text and ends before any coverage breakdown.
\<close>

theorem exit_status:
  "(returncode result \<noteq> 0 \<longrightarrow>
      main result = ([Checking, FailedToRun, Stderr (stderr result)], 1)) \<and>
   (returncode result = 0 \<longrightarrow>
      (\<exists>coverage_data st.
         parse_coverage (stdout result) = Inr coverage_data \<and>
         evaluate coverage_data PRODUCTION_CONTRACTS = Inr st \<and>
         main result =
           (if all_pass st then (Checking # out st @ [AllHave100], 0)
            else (Checking # out st @ [CheckFailed, MustHave100], 1)))) \<and>
   (snd (main result) = 0 \<longleftrightarrow>
      returncode result = 0 \<and>
      (\<exists>coverage_data st.
         parse_coverage (stdout result) = Inr coverage_data \<and>
         evaluate coverage_data PRODUCTION_CONTRACTS = Inr st \<and> all_pass st)) \<and>
   (snd (main result) \<noteq> 0 \<longrightarrow> snd (main result) = 1)"
  by (simp add: main_def parse_coverage_foldl evaluate_eq)

theorem exit_status_witness:
  "main \<lparr>returncode = 1, stdout = '''', stderr = ''compilation error''\<rparr>
     = ([Checking, FailedToRun, Stderr ''compilation error''], 1) \<and>
   snd (main \<lparr>returncode = 0,
              stdout = ''| src/Minter.sol | 100.00% (9/9) | 100.00% (8/8) | 100.00% (2/2) | 100.00% (3/3) |'',
              stderr = ''''\<rparr>) = 0 \<and>
   snd (main \<lparr>returncode = 0,
              stdout = ''| src/Auction.sol | 100.00% (9/9) | 100.00% (8/8) | 92.50% (37/40) | 100.00% (3/3) |'',
              stderr = ''''\<rparr>) = 1"
proof -
  let ?d = "\<lparr>returncode = 1, stdout = '''', stderr = ''compilation error''\<rparr>"
  let ?a = "\<lparr>returncode = 0,
              stdout = ''| src/Minter.sol | 100.00% (9/9) | 100.00% (8/8) | 100.00% (2/2) | 100.00% (3/3) |'',
              stderr = ''''\<rparr>"
  let ?b = "\<lparr>returncode = 0,
              stdout = ''| src/Auction.sol | 100.00% (9/9) | 100.00% (8/8) | 92.50% (37/40) | 100.00% (3/3) |'',
              stderr = ''''\<rparr>"
  have pa: "parse_coverage (stdout ?a) =
      Inr [(''src/Minter.sol'', \<lparr>lines = Finite 100, statements = Finite 100,
              branches = Finite 100, functions = Finite 100\<rparr>)]"
    by (simp add: parse_coverage_foldl eval_defs)
  have pb: "parse_coverage (stdout ?b) =
      Inr [(''src/Auction.sol'', \<lparr>lines = Finite 100, statements = Finite 100,
              branches = Finite (185 / 2), functions = Finite 100\<rparr>)]"
    by (simp add: parse_coverage_foldl eval_defs)
  from exit_status[of ?d] have 1: "main ?d = ([Checking, FailedToRun, Stderr ''compilation error''], 1)"
    by simp
  from exit_status[of ?a] have 2: "snd (main ?a) = 0"
    unfolding pa by (simp add: report_defs)
  from exit_status[of ?b] have "snd (main ?b) \<noteq> 0"
    unfolding pb by (simp add: report_defs)
  with exit_status[of ?b] have 3: "snd (main ?b) = 1"
    by blast
  from 1 2 3 show ?thesis
    by simp
qed

subsection \<open>The shape of a data row\<close>

text \<open>
  Claim C3, as stated: in a row \<^verbatim>\<open>| <label> | <file> | <lines%> | ...\<close> the path
  comes from the file cell and the metrics from the four cells after it. The script
  reads the path from the first cell after the leading delimiter and the metrics from
  the four cells after that one: in a row of the stated shape the label is stored as
  the path, the file cell is read as the lines metric and the functions cell is not
  read at all.
\<close>

theorem label_cell_is_taken_as_path:
  "parse_coverage ''| row | src/A.sol | 100.00% (1/1) | 100.00% (1/1) | 100.00% (1/1) | 50.00% (1/2) |''
     = Inr [(''row'',
             \<lparr>lines = Finite 0, statements = Finite 100, branches = Finite 100,
              functions = Finite 100\<rparr>)]"
  by (simp add: parse_coverage_foldl eval_defs)

text \<open>
  Claim C3, amended: for every data row of the shape
  \<^verbatim>\<open>| <file> | <lines%> | <statements%> | <branches%> | <functions%> | ...\<close> (nothing
  before the first delimiter, the file path cell first, then four metric cells), the
  parsing maps the file path, which is the file cell without the white space around
  it, to the record whose four metrics come from the four cells that follow it.
\<close>

theorem row_of_table_shape:
  assumes "line = ''|'' @ file @ ''|'' @ c1 @ ''|'' @ c2 @ ''|'' @ c3 @ ''|'' @ c4 @ rest"
      and "rest = [] \<or> hd rest = CHR ''|''"
      and "CHR ''|'' \<notin> set file" and "CHR ''|'' \<notin> set c1" and "CHR ''|'' \<notin> set c2"
      and "CHR ''|'' \<notin> set c3" and "CHR ''|'' \<notin> set c4"
      and "contains line '' | ''"
      and "strip file \<noteq> []" and "\<not> startswith (strip file) ''-''"
  shows "parse_line coverage_data line =
           Inr (AList.update (strip file)
                  \<lparr>lines = cell_value c1, statements = cell_value c2,
                   branches = cell_value c3, functions = cell_value c4\<rparr>
                  coverage_data) \<and>
         (CHR 0x0A \<notin> set line \<longrightarrow>
            parse_coverage line =
              Inr [(strip file,
                    \<lparr>lines = cell_value c1, statements = cell_value c2,
                     branches = cell_value c3, functions = cell_value c4\<rparr>)])"
proof -
  have last: "\<exists>more. split_on CHR ''|'' (c4 @ rest) = c4 # more"
  proof (cases rest)
    case Nil
    then show ?thesis using assms(7) by (simp add: split_on_whole)
  next
    case (Cons x xs)
    with assms(2) have "rest = CHR ''|'' # xs" by simp
    then show ?thesis using assms(7) by (simp add: split_on_piece)
  qed
  then obtain more where more: "split_on CHR ''|'' (c4 @ rest) = c4 # more"
    by blast
  have "split_on CHR ''|'' line = [] # split_on CHR ''|'' (file @ CHR ''|'' # c1 @ CHR ''|'' # c2 @ CHR ''|'' # c3 @ CHR ''|'' # c4 @ rest)"
    using assms(1) by simp
  also have "\<dots> = [] # file # split_on CHR ''|'' (c1 @ CHR ''|'' # c2 @ CHR ''|'' # c3 @ CHR ''|'' # c4 @ rest)"
    using assms(3) by (simp add: split_on_piece)
  also have "\<dots> = [] # file # c1 # split_on CHR ''|'' (c2 @ CHR ''|'' # c3 @ CHR ''|'' # c4 @ rest)"
    using assms(4) by (simp add: split_on_piece)
  also have "\<dots> = [] # file # c1 # c2 # split_on CHR ''|'' (c3 @ CHR ''|'' # c4 @ rest)"
    using assms(5) by (simp add: split_on_piece)
  also have "\<dots> = [] # file # c1 # c2 # c3 # split_on CHR ''|'' (c4 @ rest)"
    using assms(6) by (simp add: split_on_piece)
  finally have parts: "split_on CHR ''|'' line = [] # file # c1 # c2 # c3 # c4 # more"
    using more by simp
  have start: "startswith line ''|''"
    using assms(1) by (simp add: startswith_def)
  have row: "data_row line"
    using start assms(8,9,10) by (simp add: data_row_def parts)
  have body: "parse_line cd line =
           Inr (AList.update (strip file)
                  \<lparr>lines = cell_value c1, statements = cell_value c2,
                   branches = cell_value c3, functions = cell_value c4\<rparr> cd)" for cd
    using row by (simp add: parse_line_row row_key_def row_record_def parts)
  have "parse_coverage line = parse_line [] line" if "CHR 0x0A \<notin> set line"
    using that by (simp add: parse_coverage_def split_on_whole parse_line_row)
  with body show ?thesis
    by simp
qed

theorem row_of_table_shape_witness:
  "parse_line [] ''| src/A.sol | 100.00% (3/3) | 99.99% (4/4) | - | 50.00% (1/2) | extra |''
     = Inr [(''src/A.sol'',
             \<lparr>lines = Finite 100, statements = Finite (7036170730324623 / 70368744177664),
              branches = Finite 0, functions = Finite 50\<rparr>)]"
proof -
  let ?line = "''| src/A.sol | 100.00% (3/3) | 99.99% (4/4) | - | 50.00% (1/2) | extra |''"
  have 1: "?line = ''|'' @ '' src/A.sol '' @ ''|'' @ '' 100.00% (3/3) '' @ ''|'' @ '' 99.99% (4/4) ''
       @ ''|'' @ '' - '' @ ''|'' @ '' 50.00% (1/2) '' @ ''| extra |''"
    by simp
  have 2: "''| extra |'' = [] \<or> hd ''| extra |'' = CHR ''|''"
    by simp
  have 3: "CHR ''|'' \<notin> set '' src/A.sol ''" "CHR ''|'' \<notin> set '' 100.00% (3/3) ''"
    "CHR ''|'' \<notin> set '' 99.99% (4/4) ''" "CHR ''|'' \<notin> set '' - ''"
    "CHR ''|'' \<notin> set '' 50.00% (1/2) ''"
    by simp_all
  have 4: "contains ?line '' | ''"
    by (simp add: startswith_def)
  have 5: "strip '' src/A.sol '' = ''src/A.sol''"
    by (simp add: eval_defs)
  have 6: "strip '' src/A.sol '' \<noteq> []" "\<not> startswith (strip '' src/A.sol '') ''-''"
    unfolding 5 by (simp_all add: startswith_def)
  have 7: "cell_value '' 100.00% (3/3) '' = Finite 100"
    "cell_value '' 99.99% (4/4) '' = Finite (7036170730324623 / 70368744177664)"
    "cell_value '' - '' = Finite 0" "cell_value '' 50.00% (1/2) '' = Finite 50"
    by (simp_all add: eval_defs)
  from row_of_table_shape[OF 1 2 3 4 6, of "[]"]
  have "parse_line [] ?line =
          Inr (AList.update ''src/A.sol''
                 \<lparr>lines = Finite 100, statements = Finite (7036170730324623 / 70368744177664),
                  branches = Finite 0, functions = Finite 50\<rparr> [])"
    unfolding 5 7 by (rule conjunct1)
  then show ?thesis
    by simp
qed

subsection \<open>The list of untracked sources\<close>

text \<open>
  Claim C4, as stated: every path of the report that begins with \<^verbatim>\<open>src/\<close> and is
  not tracked is listed as not tracked. Line 87 leaves \<^verbatim>\<open>src/Counter.sol\<close> out of
  the list: it is in the report, begins with \<^verbatim>\<open>src/\<close>, is not tracked, and is not
  listed.
\<close>

theorem counter_sol_not_listed:
  "parse_coverage ''| src/Counter.sol | 100.00% (2/2) | 100.00% (1/1) | 100.00% (0/0) | 100.00% (2/2) |''
     = Inr [(''src/Counter.sol'',
             \<lparr>lines = Finite 100, statements = Finite 100, branches = Finite 100,
              functions = Finite 100\<rparr>)] \<and>
   startswith ''src/Counter.sol'' ''src/'' \<and>
   ''src/Counter.sol'' \<notin> set PRODUCTION_CONTRACTS \<and>
   NotTracked ''src/Counter.sol'' \<notin>
     set (fst (main \<lparr>returncode = 0,
                      stdout = ''| src/Counter.sol | 100.00% (2/2) | 100.00% (1/1) | 100.00% (0/0) | 100.00% (2/2) |'',
                      stderr = ''''\<rparr>))"
proof -
  let ?t = "''| src/Counter.sol | 100.00% (2/2) | 100.00% (1/1) | 100.00% (0/0) | 100.00% (2/2) |''"
  let ?cd = "[(''src/Counter.sol'',
             \<lparr>lines = Finite 100, statements = Finite 100, branches = Finite 100,
              functions = Finite 100\<rparr>)]"
  have p: "parse_coverage ?t = Inr ?cd"
    by (simp add: parse_coverage_foldl eval_defs)
  have e: "evaluate ?cd PRODUCTION_CONTRACTS =
             Inr \<lparr>all_pass = True, contracts_checked = [],
                  out = [ReportHeading, Rule, Rule, AllContractsHeading, Rule]\<rparr>"
    by (simp add: report_defs)
  have m: "main \<lparr>returncode = 0, stdout = ?t, stderr = ''''\<rparr>
          = ([Checking, ReportHeading, Rule, Rule, AllContractsHeading, Rule, AllHave100], 0)"
    unfolding main_def completed_process.simps p sum.case e
    by simp
  have s: "startswith ''src/Counter.sol'' ''src/''"
    by (simp add: startswith_def)
  have t: "''src/Counter.sol'' \<notin> set PRODUCTION_CONTRACTS"
    by (simp add: PRODUCTION_CONTRACTS_def)
  from p s t show ?thesis
    unfolding m by simp
qed

text \<open>
  Claim C4, amended: every path of the report that begins with \<^verbatim>\<open>src/\<close>, is not
  \<^verbatim>\<open>src/Counter.sol\<close> and is not tracked is listed as not tracked. The verdict and
  the exit status depend on the records of the tracked files only: two reports that
  agree on the tracked files give the same verdict and the same exit status, whatever
  other files they hold.
\<close>

theorem untracked_sources_listed:
  "\<exists>st. evaluate coverage_data tracked = Inr st \<and>
     (\<forall>contract\<in>fst ` set coverage_data.
        startswith contract ''src/'' \<longrightarrow> contract \<noteq> ''src/Counter.sol'' \<longrightarrow>
        contract \<notin> set tracked \<longrightarrow> NotTracked contract \<in> set (out st)) \<and>
     (\<forall>other. (\<forall>t\<in>set tracked. map_of other t = map_of coverage_data t) \<longrightarrow>
        (\<exists>st'. evaluate other tracked = Inr st' \<and> all_pass st' = all_pass st)) \<and>
     (\<forall>result result' other.
        returncode result = 0 \<and> parse_coverage (stdout result) = Inr coverage_data \<and>
        returncode result' = 0 \<and> parse_coverage (stdout result') = Inr other \<and>
        (\<forall>t\<in>set PRODUCTION_CONTRACTS. map_of other t = map_of coverage_data t) \<longrightarrow>
        snd (main result) = snd (main result'))"
proof -
  have same: "verdict other ts = verdict coverage_data ts"
    if "\<forall>t\<in>set ts. map_of other t = map_of coverage_data t" for other ts
    using that by (simp add: verdict_def)
  have listed: "NotTracked contract \<in> set (concat (map (listing_events coverage_data tracked checked)
                            (sort (map fst coverage_data))))"
    if "contract \<in> fst ` set coverage_data" "startswith contract ''src/''"
       "contract \<noteq> ''src/Counter.sol''" "contract \<notin> set tracked" for contract checked
  proof -
    have "NotTracked contract \<in> set (listing_events coverage_data tracked checked contract)"
      using that by (simp add: listing_events_def)
    moreover have "contract \<in> set (sort (map fst coverage_data))"
      using that(1) by simp
    ultimately show ?thesis
      by auto
  qed
  have exit: "snd (main result) = snd (main result')"
    if "returncode result = 0" "parse_coverage (stdout result) = Inr coverage_data"
       "returncode result' = 0" "parse_coverage (stdout result') = Inr other"
       "\<forall>t\<in>set PRODUCTION_CONTRACTS. map_of other t = map_of coverage_data t"
    for result result' other
    using that same[OF that(5)] by (simp add: main_def evaluate_eq)
  define st where
    "st = \<lparr>all_pass = verdict coverage_data tracked,
            contracts_checked = found coverage_data tracked,
            out = ReportHeading # Rule # concat (map (contract_events coverage_data) tracked)
                @ [Rule, AllContractsHeading]
                @ concat (map (listing_events coverage_data tracked (found coverage_data tracked))
                            (sort (map fst coverage_data)))
                @ [Rule]\<rparr>"
  have ev: "evaluate coverage_data tracked = Inr st"
    by (simp add: evaluate_eq st_def)
  have a: "\<forall>contract\<in>fst ` set coverage_data.
        startswith contract ''src/'' \<longrightarrow> contract \<noteq> ''src/Counter.sol'' \<longrightarrow>
        contract \<notin> set tracked \<longrightarrow> NotTracked contract \<in> set (out st)"
  proof (intro ballI impI)
    fix contract
    assume "contract \<in> fst ` set coverage_data" "startswith contract ''src/''"
       "contract \<noteq> ''src/Counter.sol''" "contract \<notin> set tracked"
    from listed[OF this, of "found coverage_data tracked"]
    show "NotTracked contract \<in> set (out st)"
      by (simp add: st_def)
  qed
  have b: "\<forall>other. (\<forall>t\<in>set tracked. map_of other t = map_of coverage_data t) \<longrightarrow>
        (\<exists>st'. evaluate other tracked = Inr st' \<and> all_pass st' = all_pass st)"
  proof (intro allI impI)
    fix other
    assume "\<forall>t\<in>set tracked. map_of other t = map_of coverage_data t"
    from same[OF this]
    show "\<exists>st'. evaluate other tracked = Inr st' \<and> all_pass st' = all_pass st"
      by (simp add: evaluate_eq st_def)
  qed
  have c: "\<forall>result result' other.
        returncode result = 0 \<and> parse_coverage (stdout result) = Inr coverage_data \<and>
        returncode result' = 0 \<and> parse_coverage (stdout result') = Inr other \<and>
        (\<forall>t\<in>set PRODUCTION_CONTRACTS. map_of other t = map_of coverage_data t) \<longrightarrow>
        snd (main result) = snd (main result')"
    using exit by blast
  from ev a b c show ?thesis
    by blast
qed

theorem untracked_sources_listed_witness:
  "\<exists>st. evaluate
           [(''src/Minter.sol'',
             \<lparr>lines = Finite 100, statements = Finite 100, branches = Finite 100,
              functions = Finite 100\<rparr>),
            (''src/Helper.sol'',
             \<lparr>lines = Finite 50, statements = Finite 100, branches = Finite 100,
              functions = Finite 100\<rparr>)]
           PRODUCTION_CONTRACTS = Inr st \<and>
         NotTracked ''src/Helper.sol'' \<in> set (out st)"
proof -
  let ?cd = "[(''src/Minter.sol'',
             \<lparr>lines = Finite 100, statements = Finite 100, branches = Finite 100,
              functions = Finite 100\<rparr>),
            (''src/Helper.sol'',
             \<lparr>lines = Finite 50, statements = Finite 100, branches = Finite 100,
              functions = Finite 100\<rparr>)]"
  from untracked_sources_listed[of ?cd PRODUCTION_CONTRACTS]
  obtain st where st: "evaluate ?cd PRODUCTION_CONTRACTS = Inr st"
    and l: "\<forall>contract\<in>fst ` set ?cd.
        startswith contract ''src/'' \<longrightarrow> contract \<noteq> ''src/Counter.sol'' \<longrightarrow>
        contract \<notin> set PRODUCTION_CONTRACTS \<longrightarrow> NotTracked contract \<in> set (out st)"
    by blast
  from l have "NotTracked ''src/Helper.sol'' \<in> set (out st)"
    by (simp add: startswith_def PRODUCTION_CONTRACTS_def)
  with st show ?thesis
    by blast
qed

subsection \<open>The check of one metric\<close>

text \<open>
  Claim C5: the check of one metric of a tracked file that is present in the report
  passes exactly when the value equals 100.0, with no tolerance: 99.99 fails, 100.00
  passes, and a cell without a percentage, which is parsed as 0.0, fails.
\<close>

theorem metric_passes_iff_100:
  assumes "evaluate coverage_data tracked = Inr st"
  shows "(\<forall>contract\<in>set tracked. \<forall>data. map_of coverage_data contract = Some data \<longrightarrow>
            (\<forall>(metric, val)\<in>set (items data).
               if val = Finite 100 then MetricOk metric val \<in> set (out st)
               else MetricBelow metric val \<in> set (out st) \<and> \<not> all_pass st)) \<and>
         (\<forall>metric val. MetricOk metric val \<in> set (out st) \<longrightarrow> val = Finite 100) \<and>
         (\<forall>metric val. MetricBelow metric val \<in> set (out st) \<longrightarrow> val \<noteq> Finite 100) \<and>
         cell_value '' 99.99% (9999/10000) '' \<noteq> Finite 100 \<and>
         cell_value '' 100.00% (12/12) '' = Finite 100 \<and>
         cell_value '''' = Finite 0 \<and> Finite 0 \<noteq> Finite 100"
proof -
  from assms have st:
    "all_pass st = verdict coverage_data tracked"
    "out st = ReportHeading # Rule # concat (map (contract_events coverage_data) tracked)
                @ [Rule, AllContractsHeading]
                @ concat (map (listing_events coverage_data tracked (found coverage_data tracked))
                            (sort (map fst coverage_data)))
                @ [Rule]"
    by (auto simp: evaluate_eq)
  have a: "\<forall>contract\<in>set tracked. \<forall>data. map_of coverage_data contract = Some data \<longrightarrow>
            (\<forall>(metric, val)\<in>set (items data).
               if val = Finite 100 then MetricOk metric val \<in> set (out st)
               else MetricBelow metric val \<in> set (out st) \<and> \<not> all_pass st)"
  proof (intro ballI allI impI, clarify)
    fix contract data metric val
    assume c: "contract \<in> set tracked" and d: "map_of coverage_data contract = Some data"
      and mv: "(metric, val) \<in> set (items data)"
    have "metric_event (metric, val) \<in> set (contract_events coverage_data contract)"
      using d mv by (simp add: contract_events_def)
    with c have ev: "metric_event (metric, val) \<in> set (out st)"
      unfolding st by auto
    have "val \<noteq> Finite 100 \<Longrightarrow> \<not> all_100 data"
      using mv by (auto simp: items_def all_100_def)
    with c d have "val \<noteq> Finite 100 \<Longrightarrow> \<not> all_pass st"
      unfolding st verdict_def by blast
    with ev show "if val = Finite 100 then MetricOk metric val \<in> set (out st)
               else MetricBelow metric val \<in> set (out st) \<and> \<not> all_pass st"
      by (auto simp: metric_event_def)
  qed
  have ev: "MetricOk metric val \<in> set (out st) \<or> MetricBelow metric val \<in> set (out st) \<Longrightarrow>
      (MetricOk metric val \<in> set (out st) \<longrightarrow> val = Finite 100) \<and>
      (MetricBelow metric val \<in> set (out st) \<longrightarrow> val \<noteq> Finite 100)" for metric val
    unfolding st
    by (auto dest!: metric_event_in_contract_events no_metric_event_in_listing
        simp: metric_event_def split: if_splits)
  have b: "\<forall>metric val. MetricOk metric val \<in> set (out st) \<longrightarrow> val = Finite 100"
    using ev by blast
  have c: "\<forall>metric val. MetricBelow metric val \<in> set (out st) \<longrightarrow> val \<noteq> Finite 100"
    using ev by blast
  have d: "cell_value '' 99.99% (9999/10000) '' \<noteq> Finite 100"
    by (simp add: eval_defs)
  have e: "cell_value '' 100.00% (12/12) '' = Finite 100"
    by (simp add: eval_defs)
  have f: "cell_value '''' = Finite 0"
    by (simp add: eval_defs)
  from a b c d e f show ?thesis
    by simp
qed

theorem metric_passes_iff_100_witness:
  "\<exists>st. evaluate
           [(''src/Auction.sol'',
             \<lparr>lines = Finite 100, statements = Finite (7036170730324623 / 70368744177664),
              branches = Finite 0, functions = Finite 100\<rparr>)]
           PRODUCTION_CONTRACTS = Inr st \<and>
         MetricOk Lines (Finite 100) \<in> set (out st) \<and>
         MetricBelow Statements (Finite (7036170730324623 / 70368744177664)) \<in> set (out st) \<and>
         MetricBelow Branches (Finite 0) \<in> set (out st) \<and>
         MetricOk Functions (Finite 100) \<in> set (out st) \<and>
         MetricOk Branches (Finite 0) \<notin> set (out st) \<and>
         \<not> all_pass st"
proof -
  let ?data = "\<lparr>lines = Finite 100, statements = Finite (7036170730324623 / 70368744177664),
              branches = Finite 0, functions = Finite 100\<rparr>"
  let ?cd = "[(''src/Auction.sol'', ?data)]"
  obtain st where st: "evaluate ?cd PRODUCTION_CONTRACTS = Inr st"
    by (simp add: evaluate_eq)
  have t: "''src/Auction.sol'' \<in> set PRODUCTION_CONTRACTS"
    by (simp add: PRODUCTION_CONTRACTS_def)
  have m: "map_of ?cd ''src/Auction.sol'' = Some ?data"
    by simp
  from metric_passes_iff_100[OF st] t m
  have "\<forall>(metric, val)\<in>set (items ?data).
               if val = Finite 100 then MetricOk metric val \<in> set (out st)
               else MetricBelow metric val \<in> set (out st) \<and> \<not> all_pass st"
    by blast
  moreover from metric_passes_iff_100[OF st]
  have "MetricOk Branches (Finite 0) \<in> set (out st) \<longrightarrow> Finite 0 = Finite 100"
    by blast
  then have "MetricOk Branches (Finite 0) \<notin> set (out st)"
    by simp
  ultimately show ?thesis
    using st by (auto simp: items_def)
qed

subsection \<open>Cells and rows that are malformed\<close>

text \<open>
  Claim C6: for every text and every metric cell of a data row, the parsing takes the
  first occurrence of the pattern \<^verbatim>\<open>digits.digits%\<close> in the cell; where the cell has
  no occurrence the metric is 0.0; and no cell and no row makes the parsing fail: it
  returns a report for every text. The report has an entry for every data row of the
  text, and every entry is the path of a data row with the four metrics read in this
  way from the four cells after the path.
\<close>

theorem parse_never_raises_first_pattern:
  "\<exists>coverage_data.
     parse_coverage text = Inr coverage_data \<and>
     (\<forall>line\<in>set (split_on CHR 0x0A text).
        data_row line \<longrightarrow>
        (\<exists>data. map_of coverage_data (row_key line) = Some data) \<and>
        (\<exists>data. parse_line [] line = Inr [(row_key line, data)] \<and> row_metrics line data)) \<and>
     (\<forall>(contract, data)\<in>set coverage_data.
        \<exists>line\<in>set (split_on CHR 0x0A text).
          data_row line \<and> row_key line = contract \<and> row_metrics line data) \<and>
     (\<forall>cell. \<exists>v. metric_of_cell cell = Inr v \<and> first_percentage cell v)"
proof -
  let ?ls = "split_on CHR 0x0A text"
  let ?cd = "foldl add_row [] ?ls"
  have 1: "parse_coverage text = Inr ?cd"
    by (rule parse_coverage_foldl)
  have 2: "\<forall>line\<in>set ?ls. data_row line \<longrightarrow>
        (\<exists>data. map_of ?cd (row_key line) = Some data) \<and>
        (\<exists>data. parse_line [] line = Inr [(row_key line, data)] \<and> row_metrics line data)"
  proof (intro ballI impI conjI)
    fix line
    assume l: "line \<in> set ?ls" and d: "data_row line"
    then have "row_key line \<in> fst ` set ?cd"
      unfolding keys_foldl_add_row by blast
    then show "\<exists>data. map_of ?cd (row_key line) = Some data"
      by (metis map_of_eq_None_iff not_Some_eq)
    have "parse_line [] line = Inr [(row_key line, row_record line)]"
      using d by (simp add: parse_line_row)
    then show "\<exists>data. parse_line [] line = Inr [(row_key line, data)] \<and> row_metrics line data"
      using row_metrics_row_record by blast
  qed
  have 3: "\<forall>(contract, data)\<in>set ?cd.
        \<exists>line\<in>set ?ls. data_row line \<and> row_key line = contract \<and> row_metrics line data"
  proof (intro ballI, clarify)
    fix contract data
    assume "(contract, data) \<in> set ?cd"
    with entries_foldl_add_row[of "[]" ?ls]
    obtain l where "l \<in> set ?ls" "data_row l" "contract = row_key l" "data = row_record l"
      by auto
    then show "\<exists>line\<in>set ?ls. data_row line \<and> row_key line = contract \<and> row_metrics line data"
      using row_metrics_row_record by blast
  qed
  have 4: "\<forall>cell. \<exists>v. metric_of_cell cell = Inr v \<and> first_percentage cell v"
    using metric_of_cell_value first_percentage_cell_value by blast
  from 1 2 3 4 show ?thesis
    by blast
qed

theorem parse_never_raises_first_pattern_witness:
  "\<exists>coverage_data.
     parse_coverage
       ''| src/A.sol | x 1.2.3% 4.5% | n/a | 100.00% (1/1) | 12.% |\<newline>not a row\<newline>| src/B.sol |''
       = Inr coverage_data \<and>
     coverage_data =
       [(''src/A.sol'',
         \<lparr>lines = Finite (2589569785738035 / 1125899906842624), statements = Finite 0,
          branches = Finite 100, functions = Finite 0\<rparr>)] \<and>
     row_metrics ''| src/A.sol | x 1.2.3% 4.5% | n/a | 100.00% (1/1) | 12.% |''
       \<lparr>lines = Finite (2589569785738035 / 1125899906842624), statements = Finite 0,
        branches = Finite 100, functions = Finite 0\<rparr>"
proof -
  let ?row = "''| src/A.sol | x 1.2.3% 4.5% | n/a | 100.00% (1/1) | 12.% |''"
  let ?t = "?row @ CHR 0x0A # ''not a row'' @ CHR 0x0A # ''| src/B.sol |''"
  let ?r = "\<lparr>lines = Finite (2589569785738035 / 1125899906842624), statements = Finite 0,
        branches = Finite 100, functions = Finite 0\<rparr>"
  have lines: "split_on CHR 0x0A ?t = [?row, ''not a row'', ''| src/B.sol |'']"
    by simp
  have row: "data_row ?row"
    by (simp add: eval_defs)
  have line: "parse_line [] ?row = Inr [(''src/A.sol'', ?r)]"
    by (simp add: parse_line_row eval_defs)
  have whole: "parse_coverage ?t = Inr [(''src/A.sol'', ?r)]"
    by (simp add: parse_coverage_foldl eval_defs)
  from parse_never_raises_first_pattern[of ?t]
  have "\<forall>line\<in>set (split_on CHR 0x0A ?t).
        data_row line \<longrightarrow>
        (\<exists>data. parse_line [] line = Inr [(row_key line, data)] \<and> row_metrics line data)"
    by blast
  with row have "\<exists>data. parse_line [] ?row = Inr [(row_key ?row, data)] \<and> row_metrics ?row data"
    unfolding lines by simp
  then have "row_metrics ?row ?r"
    unfolding line by auto
  with whole show ?thesis
    by simp
qed

subsection \<open>Which lines are data rows\<close>

text \<open>
  Claim C7, as stated: a line contributes an entry exactly when it starts with the
  delimiter, has a delimiter after its first character, splits into at least six cells
  and has a path cell that is not empty and does not begin with \<^verbatim>\<open>-\<close>. The test of
  line 44 asks for more than a delimiter inside the line: it asks for the three
  characters space, delimiter, space. A line without them meets the stated conditions
  and is skipped.
\<close>

theorem interior_delimiter_not_enough:
  "claimed_data_row ''|a|b|c|d|e|'' \<and> parse_line [] ''|a|b|c|d|e|'' = Inr [] \<and>
   parse_coverage ''|a|b|c|d|e|'' = Inr []"
  by (simp add: claimed_data_row_def interior_delimiter_def parse_line_row parse_coverage_foldl
      eval_defs)

text \<open>
  Claim C7, amended: a line contributes an entry exactly when it starts with the
  delimiter, contains the three characters space, delimiter, space, splits at the
  delimiter into at least six cells, and its second cell, stripped of white space, is
  not empty and does not begin with \<^verbatim>\<open>-\<close>. Every other line is skipped and leaves the
  report as it was.
\<close>

theorem line_contributes_iff_data_row:
  "(data_row line \<longleftrightarrow>
      (\<exists>rest. line = CHR ''|'' # rest) \<and> (\<exists>a b. line = a @ '' | '' @ b) \<and>
      6 \<le> length (split_on CHR ''|'' line) \<and>
      strip (split_on CHR ''|'' line ! 1) \<noteq> [] \<and>
      hd (strip (split_on CHR ''|'' line ! 1)) \<noteq> CHR ''-'') \<and>
   parse_line coverage_data line =
     Inr (if data_row line
          then AList.update (strip (split_on CHR ''|'' line ! 1)) (row_record line) coverage_data
          else coverage_data) \<and>
   (parse_line [] line = Inr [] \<longleftrightarrow> \<not> data_row line)"
proof -
  have 1: "data_row line \<longleftrightarrow>
      (\<exists>rest. line = CHR ''|'' # rest) \<and> (\<exists>a b. line = a @ '' | '' @ b) \<and>
      6 \<le> length (split_on CHR ''|'' line) \<and>
      strip (split_on CHR ''|'' line ! 1) \<noteq> [] \<and>
      hd (strip (split_on CHR ''|'' line ! 1)) \<noteq> CHR ''-''"
    unfolding data_row_def startswith_dash startswith_bar contains_iff by blast
  have 2: "parse_line coverage_data line =
     Inr (if data_row line
          then AList.update (strip (split_on CHR ''|'' line ! 1)) (row_record line) coverage_data
          else coverage_data)"
    by (simp add: parse_line_row row_key_def)
  have 3: "parse_line [] line = Inr [] \<longleftrightarrow> \<not> data_row line"
    by (simp add: parse_line_row)
  from 1 2 3 show ?thesis
    by blast
qed

theorem line_contributes_iff_data_row_witness:
  "parse_line [] ''| src/A.sol | 100.00% (3/3) | 100.00% (4/4) | 100.00% (1/1) | 50.00% (1/2) |''
     = Inr [(''src/A.sol'',
             \<lparr>lines = Finite 100, statements = Finite 100, branches = Finite 100,
              functions = Finite 50\<rparr>)] \<and>
   parse_line [] ''|------------|--------|--------|--------|--------|'' = Inr [] \<and>
   parse_line [] ''| ---------- | ------ | ------ | ------ | ------ |'' = Inr [] \<and>
   parse_line [] ''| src/A.sol | 100.00% (3/3) | 100.00% (4/4) |'' = Inr [] \<and>
   parse_line [] ''Ran 3 tests | for | test | a | b | c'' = Inr []"
proof -
  let ?r = "''| src/A.sol | 100.00% (3/3) | 100.00% (4/4) | 100.00% (1/1) | 50.00% (1/2) |''"
  have "data_row ?r"
    by (simp add: eval_defs)
  moreover have "strip (split_on CHR ''|'' ?r ! 1) = ''src/A.sol''"
    by (simp add: eval_defs)
  moreover have "row_record ?r = \<lparr>lines = Finite 100, statements = Finite 100,
      branches = Finite 100, functions = Finite 50\<rparr>"
    by (simp add: eval_defs)
  ultimately have 1: "parse_line [] ?r
     = Inr [(''src/A.sol'',
             \<lparr>lines = Finite 100, statements = Finite 100, branches = Finite 100,
              functions = Finite 50\<rparr>)]"
    using line_contributes_iff_data_row[of ?r "[]"] by simp
  have "\<not> data_row ''|------------|--------|--------|--------|--------|''"
    by (simp add: eval_defs)
  with line_contributes_iff_data_row[of "''|------------|--------|--------|--------|--------|''" "[]"]
  have 2: "parse_line [] ''|------------|--------|--------|--------|--------|'' = Inr []"
    by simp
  have "\<not> data_row ''| ---------- | ------ | ------ | ------ | ------ |''"
    by (simp add: eval_defs)
  with line_contributes_iff_data_row[of "''| ---------- | ------ | ------ | ------ | ------ |''" "[]"]
  have 3: "parse_line [] ''| ---------- | ------ | ------ | ------ | ------ |'' = Inr []"
    by simp
  have "\<not> data_row ''| src/A.sol | 100.00% (3/3) | 100.00% (4/4) |''"
    by (simp add: eval_defs)
  with line_contributes_iff_data_row[of "''| src/A.sol | 100.00% (3/3) | 100.00% (4/4) |''" "[]"]
  have 4: "parse_line [] ''| src/A.sol | 100.00% (3/3) | 100.00% (4/4) |'' = Inr []"
    by simp
  have "\<not> data_row ''Ran 3 tests | for | test | a | b | c''"
    by (simp add: eval_defs)
  with line_contributes_iff_data_row[of "''Ran 3 tests | for | test | a | b | c''" "[]"]
  have 5: "parse_line [] ''Ran 3 tests | for | test | a | b | c'' = Inr []"
    by simp
  from 1 2 3 4 5 show ?thesis
    by simp
qed

subsection \<open>The range of a metric\<close>

text \<open>
  Claim C8, as stated: every record that the parsing stores has its four metrics in the
  interval from 0 to 100. The parsing has no upper bound: the pattern takes any run of
  digits, and a cell \<^verbatim>\<open>250.00%\<close> gives the value 250.
\<close>

theorem metric_above_100:
  "parse_coverage ''| src/A.sol | 250.00% (5/2) | 100.00% (1/1) | 100.00% (1/1) | 100.00% (1/1) |''
     = Inr [(''src/A.sol'',
             \<lparr>lines = Finite 250, statements = Finite 100, branches = Finite 100,
              functions = Finite 100\<rparr>)] \<and>
   \<not> in_percent_range (Finite 250)"
  by (simp add: parse_coverage_foldl eval_defs in_percent_range_def)

text \<open>
  Claim C8, amended: every record that the parsing stores has all four metrics, and
  each of them is not negative (zero, a positive number or infinity); nothing bounds
  them from above.
\<close>

theorem metrics_not_negative:
  assumes "parse_coverage text = Inr cd" "(contract, data) \<in> set cd"
  shows "not_negative (lines data) \<and> not_negative (statements data) \<and>
         not_negative (branches data) \<and> not_negative (functions data)"
proof -
  have "\<forall>(k, r)\<in>set (foldl add_row [] (split_on CHR 0x0A text)). record_not_negative r"
    by (rule foldl_add_row_invariant) simp
  with assms show ?thesis
    by (auto simp: parse_coverage_foldl record_not_negative_def)
qed

theorem metrics_not_negative_witness:
  "parse_coverage ''| src/A.sol | 250.00% (5/2) | 0.00% (0/1) | 100.00% (1/1) | n/a |''
     = Inr [(''src/A.sol'',
             \<lparr>lines = Finite 250, statements = Finite 0, branches = Finite 100,
              functions = Finite 0\<rparr>)] \<and>
   not_negative (Finite 250) \<and> not_negative (Finite 0) \<and> not_negative (Finite 100)"
proof -
  let ?t = "''| src/A.sol | 250.00% (5/2) | 0.00% (0/1) | 100.00% (1/1) | n/a |''"
  let ?r = "\<lparr>lines = Finite 250, statements = Finite 0, branches = Finite 100,
              functions = Finite 0\<rparr>"
  have p: "parse_coverage ?t = Inr [(''src/A.sol'', ?r)]"
    by (simp add: parse_coverage_foldl eval_defs)
  have m: "(''src/A.sol'', ?r) \<in> set [(''src/A.sol'', ?r)]"
    by simp
  from metrics_not_negative[OF p m] p show ?thesis
    by simp
qed

subsection \<open>Determinism of the evaluation\<close>

text \<open>
  Claim C9: the evaluation is deterministic: the same report and the same list of
  tracked files give the same verdict and the same breakdown. The report is a mapping
  from paths to records, so two dicts with the same entries, whatever the order in
  which they were inserted, are the same input.
\<close>

theorem evaluate_deterministic:
  assumes "map_of report1 = map_of report2"
      and "distinct (map fst report1)" and "distinct (map fst report2)"
  shows "evaluate report1 tracked = evaluate report2 tracked \<and>
         (\<exists>st. evaluate report1 tracked = Inr st)"
proof -
  have "set (map fst report1) = set (map fst report2)"
    using assms(1) by (metis dom_map_of_conv_image_fst set_map)
  then have keys: "sort (map fst report1) = sort (map fst report2)"
    using assms(2,3) by (intro sorted_distinct_set_unique) simp_all
  have "contract_events report1 = contract_events report2"
    using assms(1) by (simp add: fun_eq_iff contract_events_def)
  moreover have "listing_events report1 = listing_events report2"
    using assms(1) by (simp add: fun_eq_iff listing_events_def)
  moreover have "verdict report1 = verdict report2" "found report1 = found report2"
    using assms(1) by (simp_all add: fun_eq_iff verdict_def found_def)
  ultimately show ?thesis
    using keys by (simp add: evaluate_eq)
qed

theorem evaluate_deterministic_witness:
  "evaluate
     [(''src/Minter.sol'', \<lparr>lines = Finite 100, statements = Finite 100,
                             branches = Finite 100, functions = Finite 100\<rparr>),
      (''src/Helper.sol'', \<lparr>lines = Finite 50, statements = Finite 0,
                             branches = Finite 100, functions = Finite 100\<rparr>)]
     PRODUCTION_CONTRACTS
   = evaluate
     [(''src/Helper.sol'', \<lparr>lines = Finite 50, statements = Finite 0,
                             branches = Finite 100, functions = Finite 100\<rparr>),
      (''src/Minter.sol'', \<lparr>lines = Finite 100, statements = Finite 100,
                             branches = Finite 100, functions = Finite 100\<rparr>)]
     PRODUCTION_CONTRACTS"
proof -
  let ?m = "(''src/Minter.sol'', \<lparr>lines = Finite 100, statements = Finite 100,
                             branches = Finite 100, functions = Finite 100\<rparr>)"
  let ?h = "(''src/Helper.sol'', \<lparr>lines = Finite 50, statements = Finite 0,
                             branches = Finite 100, functions = Finite 100\<rparr>)"
  have 1: "map_of [?m, ?h] = map_of [?h, ?m]"
    by (auto simp: fun_eq_iff)
  have 2: "distinct (map fst [?m, ?h])" and 3: "distinct (map fst [?h, ?m])"
    by simp_all
  from evaluate_deterministic[OF 1 2 3, of PRODUCTION_CONTRACTS] show ?thesis
    by simp
qed

subsection \<open>Rows with the same path\<close>

text \<open>
  Claim C10: when several data rows of the text carry the same file path, the record
  stored for that path is the one of the last such row. Here \<open>line\<close> is a data row
  and no data row after it has its path; rows before it may.
\<close>

theorem last_row_wins:
  assumes "split_on CHR 0x0A text = before @ line # after"
      and "data_row line"
      and "\<forall>l\<in>set after. data_row l \<longrightarrow> row_key l \<noteq> row_key line"
  shows "\<exists>cd. parse_coverage text = Inr cd \<and> map_of cd (row_key line) = Some (row_record line)"
proof -
  let ?cd1 = "foldl add_row [] before"
  have "map_of (foldl add_row [] (before @ line # after)) (row_key line)
          = map_of (add_row ?cd1 line) (row_key line)"
    using assms(3) by (simp add: map_of_foldl_add_row_other)
  also have "\<dots> = Some (row_record line)"
    using assms(2) by (simp add: add_row_def update_conv')
  finally show ?thesis
    using assms(1) by (simp add: parse_coverage_foldl)
qed

theorem last_row_wins_witness:
  "\<exists>cd. parse_coverage
          ''| src/A.sol | 1.0% | 2.0% | 3.0% | 4.0% |\<newline>| src/A.sol | 100.00% (3/3) | 100.00% (4/4) | 100.00% (1/1) | 50.00% (1/2) |\<newline>| src/B.sol | 5.0% | 6.0% | 7.0% | 8.0% |''
        = Inr cd \<and>
      map_of cd ''src/A.sol''
        = Some \<lparr>lines = Finite 100, statements = Finite 100, branches = Finite 100,
                functions = Finite 50\<rparr>"
proof -
  let ?r1 = "''| src/A.sol | 1.0% | 2.0% | 3.0% | 4.0% |''"
  let ?r2 = "''| src/A.sol | 100.00% (3/3) | 100.00% (4/4) | 100.00% (1/1) | 50.00% (1/2) |''"
  let ?r3 = "''| src/B.sol | 5.0% | 6.0% | 7.0% | 8.0% |''"
  have 1: "split_on CHR 0x0A (?r1 @ CHR 0x0A # ?r2 @ CHR 0x0A # ?r3) = [?r1] @ ?r2 # [?r3]"
    by simp
  have 2: "data_row ?r2"
    by (simp add: eval_defs)
  have 4: "row_key ?r2 = ''src/A.sol''"
    by (simp add: eval_defs)
  have 3: "\<forall>l\<in>set [?r3]. data_row l \<longrightarrow> row_key l \<noteq> row_key ?r2"
    unfolding 4 by (simp add: eval_defs)
  have 5: "row_record ?r2 = \<lparr>lines = Finite 100, statements = Finite 100, branches = Finite 100,
                functions = Finite 50\<rparr>"
    by (simp add: eval_defs)
  from last_row_wins[OF 1 2 3] show ?thesis
    unfolding 4 5 by simp
qed

end
